theory Spec2Isabelle
  imports
    Complex_Main
    "HOL-Library.Word"
    "HOL-Library.Signed_Division"
    "HOL-Library.Log_Nat"
begin

unbundle bit_operations_syntax

section \<open>Machine integers of the source\<close>

text \<open>
  The source computes on \<open>int32_t\<close>.  Signed overflow is undefined in C++, so the
  functions below are embedded over \<^typ>\<open>int\<close> and agree with the source wherever
  every intermediate value fits 32 bits; \<open>in_int32\<close> is that range.  The C++
  operator \<open>/\<close> on integers truncates towards zero: it is \<open>sdiv\<close>.
\<close>

type_synonym u8 = "8 word"
type_synonym u16 = "16 word"

definition in_int32 :: "int \<Rightarrow> bool" where
  "in_int32 x = (- (2 ^ 31) \<le> x \<and> x < 2 ^ 31)"

section \<open>Double-precision arithmetic\<close>

text \<open>
  \<open>calculate_fan_duty\<close> and \<open>ec_write_fan_duty\<close> compute in \<open>double\<close>.  A finite
  double is modelled by the rational number it denotes, and an arithmetic operation by
  the exact result rounded to the nearest number with a 53-bit significand, ties to the
  even significand (IEEE 754 binary64, default rounding).  The exponent range is not
  bounded: for 32-bit integer operands every value below has a magnitude between
  \<open>2 ^ - 8\<close> and \<open>2 ^ 39\<close>, far from overflow and from the subnormal numbers.
\<close>

text \<open>The exponent \<open>e\<close> with \<open>2 ^ e \<le> \<bar>x\<bar> < 2 ^ (e + 1)\<close>, for \<open>x \<noteq> 0\<close>.\<close>

definition binade :: "rat \<Rightarrow> int" where
  "binade x =
     (case quotient_of \<bar>x\<bar> of (p, q) \<Rightarrow>
        (let d = int (floorlog 2 (nat p)) - int (floorlog 2 (nat q))
         in if 2 powi d \<le> \<bar>x\<bar> then d else d - 1))"

text \<open>Rounding to the nearest integer, a tie to the even one.\<close>

definition round_even :: "rat \<Rightarrow> int" where
  "round_even m =
     (let f = \<lfloor>m\<rfloor>; r = m - of_int f
      in if r < 1 / 2 then f
         else if r > 1 / 2 then f + 1
         else if even f then f else f + 1)"

text \<open>Rounding a rational to double: the significand is scaled to 53 bits and rounded.\<close>

definition fl :: "rat \<Rightarrow> rat" where
  "fl x =
     (if x = 0 then 0
      else (let e = binade x
            in of_int (round_even (x / 2 powi (e - 52))) * 2 powi (e - 52)))"

text \<open>\<open>static_cast\<close> from \<open>double\<close> to an integer type discards the fraction.\<close>

definition trunc :: "rat \<Rightarrow> int" where
  "trunc x = (if 0 \<le> x then \<lfloor>x\<rfloor> else \<lceil>x\<rceil>)"

section \<open>Register decoder\<close>

text \<open>
  \<open>static_cast<double>(raw_duty)\<close> is exact for a 32-bit integer, as are the literals
  \<open>255.0\<close> and \<open>100.0\<close>; the division and the multiplication each round once.
\<close>

definition calculate_fan_duty :: "int \<Rightarrow> int" where
  "calculate_fan_duty raw_duty = trunc (fl (fl (of_int raw_duty / 255) * 100))"

definition calculate_fan_rpms :: "int \<Rightarrow> int \<Rightarrow> int" where
  "calculate_fan_rpms raw_rpm_high raw_rpm_low =
     (let raw_rpm = push_bit 8 raw_rpm_high + raw_rpm_low
      in if raw_rpm > 0 then 2156220 sdiv raw_rpm else 0)"

section \<open>Thermal control: \<open>identify_duty\<close> and \<open>ec_auto_duty_adjust\<close>\<close>

text \<open>The array \<open>allowed_duties\<close> of \<open>identify_duty\<close>.\<close>

definition allowed_duties :: "int list" where
  "allowed_duties = [0, 16, 30, 40, 65, 90, 100]"

text \<open>
  The lambda handed to \<open>std::ranges::find_if\<close>: \<open>d ? d - range : d\<close> is the lower end
  and \<open>d ? d + range : d\<close> the upper end of the window around the level \<open>d\<close>.
\<close>

definition duty_matches :: "int \<Rightarrow> int \<Rightarrow> bool" where
  "duty_matches duty d =
     (let range = 1;
          min_right = (if d \<noteq> 0 then d - range else d);
          max_right = (if d \<noteq> 0 then d + range else d)
      in duty \<ge> min_right \<and> duty \<le> max_right)"

text \<open>\<open>find_if\<close> returns the first element that satisfies the lambda, or \<open>end()\<close>.\<close>

definition identify_duty :: "int \<Rightarrow> int" where
  "identify_duty duty =
     (case find (duty_matches duty) allowed_duties of
        Some res \<Rightarrow> res
      | None \<Rightarrow> duty)"

text \<open>The chain of conditional expressions that initialises \<open>new_duty\<close>.\<close>

definition new_duty_init :: "int \<Rightarrow> int \<Rightarrow> int" where
  "new_duty_init temp_max duty =
     (if temp_max \<ge> 85 \<and> duty < 65 then 65
      else if temp_max \<ge> 75 \<and> duty < 40 then 40
      else if temp_max \<ge> 65 \<and> duty < 30 then 30
      else if temp_max \<ge> 55 \<and> duty < 17 then 17
      else if temp_max \<le> 50 then 0
      else if temp_max \<le> 60 \<and> duty \<ge> 17 then 17
      else if temp_max \<le> 70 \<and> duty \<ge> 30 then 30
      else if temp_max \<le> 80 \<and> duty \<ge> 40 then 40
      else if temp_max \<le> 85 \<and> duty \<ge> 65 then 65
      else - 1)"

definition ec_auto_duty_adjust :: "int \<Rightarrow> int \<Rightarrow> int \<Rightarrow> int" where
  "ec_auto_duty_adjust cpu_temp gpu_temp fan_duty =
     (let temp_max = max cpu_temp gpu_temp;
          duty = identify_duty fan_duty;
          new_duty = new_duty_init temp_max duty
      in if new_duty > fan_duty
         then (let new_duty_adj = duty + ((new_duty - fan_duty) sdiv 2)
               in if new_duty - new_duty_adj > 2 then new_duty_adj else new_duty)
         else new_duty)"

text \<open>The canonical duty levels of the specification, as a set.\<close>

definition canonical_duties :: "int set" where
  "canonical_duties = set allowed_duties"

section \<open>Error codes\<close>

text \<open>
  \<open>std::errc\<close> is an enumeration over \<open>int\<close> whose enumerators carry the POSIX
  \<open>errno\<close> values; the source also builds it from \<open>EXIT_SUCCESS\<close>, from \<open>errno\<close> and
  from the return value of \<open>ioperm\<close>.  An \<open>errc\<close> or \<open>std::error_code\<close> converts to
  \<open>true\<close> exactly when its value is not zero.
\<close>

type_synonym errc = int

definition EXIT_SUCCESS :: int where "EXIT_SUCCESS = 0"
definition EXIT_FAILURE :: int where "EXIT_FAILURE = 1"
definition timed_out :: errc where "timed_out = 110"
definition invalid_argument :: errc where "invalid_argument = 22"
definition result_out_of_range :: errc where "result_out_of_range = 34"

section \<open>Port channel and EC protocol engine\<close>

text \<open>The constants of namespace \<open>k\<close>.\<close>

definition ec_data :: u16 where "ec_data = 0x62"
definition ec_sc :: u16 where "ec_sc = 0x66"
definition ec_sc_read_cmd :: u8 where "ec_sc_read_cmd = 0x80"
definition ec_reg_size :: nat where "ec_reg_size = 0x100"
definition ec_reg_cpu_temp :: nat where "ec_reg_cpu_temp = 0x07"
definition ec_reg_gpu_temp :: nat where "ec_reg_gpu_temp = 0xCD"
definition ec_reg_fan_duty :: nat where "ec_reg_fan_duty = 0xCE"
definition ec_reg_fan_rpms_hi :: nat where "ec_reg_fan_rpms_hi = 0xD0"
definition ec_reg_fan_rpms_lo :: nat where "ec_reg_fan_rpms_lo = 0xD1"
definition ibf :: u8 where "ibf = 0x01"
definition obf :: u8 where "obf = 0x00"

text \<open>
  The hardware is the environment of the program: \<open>hw n port\<close> is the byte that the
  \<open>n\<close>-th call of \<open>inb\<close> in a run returns when it is made on \<open>port\<close>.  The program's
  side of the port channel is the number of \<open>inb\<close> calls made so far and the sequence
  of \<open>outb (value, port)\<close> calls.  Console output and sleeping are not modelled.
\<close>

type_synonym hardware = "nat \<Rightarrow> u16 \<Rightarrow> u8"

record ec_ports =
  inb_calls :: nat
  outb_log :: "(u8 \<times> u16) list"

definition outb :: "u8 \<Rightarrow> u16 \<Rightarrow> ec_ports \<Rightarrow> ec_ports" where
  "outb v port p = p\<lparr>outb_log := outb_log p @ [(v, port)]\<rparr>"

definition inb :: "hardware \<Rightarrow> u16 \<Rightarrow> ec_ports \<Rightarrow> u8 \<times> ec_ports" where
  "inb hw port p = (hw (inb_calls p) port, p\<lparr>inb_calls := Suc (inb_calls p)\<rparr>)"

text \<open>
  The test \<open>((data >> flag) & 0x1) == value\<close> of \<open>ec_io_wait\<close>; the operands are
  promoted to \<open>int\<close>.  (A shift by 32 or more is undefined in C++; the program shifts
  by \<open>ibf\<close> and \<open>obf\<close> only.)
\<close>

definition flag_is :: "u8 \<Rightarrow> u8 \<Rightarrow> u8 \<Rightarrow> bool" where
  "flag_is data flag v = (drop_bit (unat flag) (uint data) AND 1 = uint v)"

text \<open>
  The loop of \<open>ec_io_wait\<close>, from the state in which \<open>repeat_count\<close> polls have failed
  and \<open>n\<close> calls of \<open>inb\<close> have been made.  It returns the error code and the number of
  \<open>inb\<close> calls made when it returns.
\<close>

function ec_io_wait_loop ::
  "hardware \<Rightarrow> u16 \<Rightarrow> u8 \<Rightarrow> u8 \<Rightarrow> int \<Rightarrow> nat \<Rightarrow> errc \<times> nat" where
  "ec_io_wait_loop hw port flag v repeat_count n =
     (if flag_is (hw n port) flag v then (EXIT_SUCCESS, Suc n)
      else if repeat_count + 1 \<ge> 100 then (timed_out, Suc n)
      else ec_io_wait_loop hw port flag v (repeat_count + 1) (Suc n))"
  by pat_completeness auto
termination
  by (relation "measure (\<lambda>(hw, port, flag, v, repeat_count, n). nat (100 - repeat_count))")
    auto

declare ec_io_wait_loop.simps [simp del]

definition ec_io_wait :: "hardware \<Rightarrow> u16 \<Rightarrow> u8 \<Rightarrow> u8 \<Rightarrow> ec_ports \<Rightarrow> errc \<times> ec_ports" where
  "ec_io_wait hw port flag v p =
     (case ec_io_wait_loop hw port flag v 0 (inb_calls p) of
        (err, n) \<Rightarrow> (err, p\<lparr>inb_calls := n\<rparr>))"

definition ec_io_do :: "hardware \<Rightarrow> u8 \<Rightarrow> u8 \<Rightarrow> u8 \<Rightarrow> ec_ports \<Rightarrow> errc \<times> ec_ports" where
  "ec_io_do hw cmd port v p =
     (case ec_io_wait hw ec_sc ibf 0 p of (err1, p1) \<Rightarrow>
        if err1 \<noteq> 0 then (err1, p1)
        else (case ec_io_wait hw ec_sc ibf 0 (outb cmd ec_sc p1) of (err2, p2) \<Rightarrow>
          if err2 \<noteq> 0 then (err2, p2)
          else (case ec_io_wait hw ec_sc ibf 0 (outb port ec_data p2) of (err3, p3) \<Rightarrow>
            if err3 \<noteq> 0 then (err3, p3)
            else ec_io_wait hw ec_sc ibf 0 (outb v ec_data p3))))"

text \<open>\<open>ec_io_read\<close> ignores the result of its three waits.\<close>

definition ec_io_read :: "hardware \<Rightarrow> u8 \<Rightarrow> ec_ports \<Rightarrow> u8 \<times> ec_ports" where
  "ec_io_read hw port p =
     (let p1 = snd (ec_io_wait hw ec_sc ibf 0 p);
          p2 = snd (ec_io_wait hw ec_sc ibf 0 (outb ec_sc_read_cmd ec_sc p1));
          p3 = snd (ec_io_wait hw ec_sc obf 1 (outb port ec_data p2))
      in inb hw ec_data p3)"

definition ec_query_cpu_temp :: "hardware \<Rightarrow> ec_ports \<Rightarrow> int \<times> ec_ports" where
  "ec_query_cpu_temp hw p =
     (case ec_io_read hw (of_nat ec_reg_cpu_temp) p of (b, p') \<Rightarrow> (uint b, p'))"

definition ec_query_gpu_temp :: "hardware \<Rightarrow> ec_ports \<Rightarrow> int \<times> ec_ports" where
  "ec_query_gpu_temp hw p =
     (case ec_io_read hw (of_nat ec_reg_gpu_temp) p of (b, p') \<Rightarrow> (uint b, p'))"

definition ec_query_fan_duty :: "hardware \<Rightarrow> ec_ports \<Rightarrow> int \<times> ec_ports" where
  "ec_query_fan_duty hw p =
     (case ec_io_read hw (of_nat ec_reg_fan_duty) p of
        (b, p') \<Rightarrow> (calculate_fan_duty (uint b), p'))"

definition ec_query_fan_rpms :: "hardware \<Rightarrow> ec_ports \<Rightarrow> int \<times> ec_ports" where
  "ec_query_fan_rpms hw p =
     (case ec_io_read hw (of_nat ec_reg_fan_rpms_hi) p of (raw_rpm_hi, p1) \<Rightarrow>
        (case ec_io_read hw (of_nat ec_reg_fan_rpms_lo) p1 of (raw_rpm_lo, p2) \<Rightarrow>
           (calculate_fan_rpms (uint raw_rpm_hi) (uint raw_rpm_lo), p2)))"

text \<open>
  The data byte is \<open>static_cast<uint8_t>(static_cast<double>(duty_percentage) / 100.0 *
  255.0)\<close>.
\<close>

definition ec_write_fan_duty :: "hardware \<Rightarrow> int \<Rightarrow> ec_ports \<Rightarrow> errc \<times> ec_ports" where
  "ec_write_fan_duty hw duty_percentage p =
     (if duty_percentage < 0 \<or> duty_percentage > 100 then (invalid_argument, p)
      else ec_io_do hw 0x99 0x01
             (word_of_int (trunc (fl (fl (of_int duty_percentage / 100) * 255)))) p)"

text \<open>\<open>dump_fan\<close> prints four readings; here it returns them, in the order printed.\<close>

definition dump_fan :: "hardware \<Rightarrow> ec_ports \<Rightarrow> (int \<times> int \<times> int \<times> int) \<times> ec_ports" where
  "dump_fan hw p =
     (case ec_query_fan_duty hw p of (duty, p1) \<Rightarrow>
        (case ec_query_fan_rpms hw p1 of (rpms, p2) \<Rightarrow>
           (case ec_query_cpu_temp hw p2 of (cpu, p3) \<Rightarrow>
              (case ec_query_gpu_temp hw p3 of (gpu, p4) \<Rightarrow>
                 ((duty, rpms, cpu, gpu), p4)))))"

definition set_fan :: "hardware \<Rightarrow> int \<Rightarrow> ec_ports \<Rightarrow> errc \<times> ec_ports" where
  "set_fan hw duty_percentage p =
     (case ec_write_fan_duty hw duty_percentage p of (err, p1) \<Rightarrow>
        if err \<noteq> 0 then (err, p1)
        else (EXIT_SUCCESS, snd (dump_fan hw p1)))"

section \<open>Control loop\<close>

text \<open>
  The variables of \<open>ec_worker\<close> that live across iterations, the descriptors that the
  process holds open, and the port channel.
\<close>

record worker =
  cpu_temp :: int
  gpu_temp :: int
  fan_duty :: int
  auto_duty_val :: int
  open_fds :: "int list"
  ports :: ec_ports

text \<open>
  What the operating system answers in one iteration: the return value of \<open>open\<close>
  (a descriptor, or a negative number), the outcome of \<open>read\<close> (failure, where it
  returns \<open>- 1\<close>, or the bytes transferred, at most the 256 requested), and the value of
  \<open>errno\<close> after a failure.
\<close>

datatype read_outcome = ReadFailed | ReadBytes "u8 list"

record tick_env =
  open_ret :: int
  read_ret :: read_outcome
  errno :: int

text \<open>The return value \<open>len\<close> of \<open>read\<close>, and \<open>buf\<close> after the call.\<close>

fun read_len :: "read_outcome \<Rightarrow> int" where
  "read_len ReadFailed = - 1"
| "read_len (ReadBytes bs) = int (length (take ec_reg_size bs))"

fun read_buf :: "read_outcome \<Rightarrow> u8 list" where
  "read_buf ReadFailed = replicate ec_reg_size 0"
| "read_buf (ReadBytes bs) =
     take ec_reg_size bs @ replicate (ec_reg_size - length bs) 0"

text \<open>
  One iteration of the loop of \<open>ec_worker\<close>: \<open>Inl\<close> is a \<open>return\<close> out of the loop with
  its error code, \<open>Inr\<close> the state in which the iteration reaches its end.
\<close>

definition ec_worker_tick ::
  "hardware \<Rightarrow> tick_env \<Rightarrow> worker \<Rightarrow> (errc \<times> worker) + worker" where
  "ec_worker_tick hw env w =
     (let io_fd = open_ret env
      in if io_fd < 0 then Inl (errno env, w)
         else
           (let w1 = w\<lparr>open_fds := io_fd # open_fds w\<rparr>;
                buf = read_buf (read_ret env);
                len = read_len (read_ret env)
            in if len = - 1 then Inl (errno env, w1)
               else
                 (let w2 = (if len = 0x100
                            then w1\<lparr>cpu_temp := uint (buf ! ec_reg_cpu_temp),
                                    gpu_temp := uint (buf ! ec_reg_gpu_temp),
                                    fan_duty :=
                                      calculate_fan_duty (uint (buf ! ec_reg_fan_duty))\<rparr>
                            else w1);
                      w3 = w2\<lparr>open_fds := remove1 io_fd (open_fds w2)\<rparr>;
                      next_duty =
                        ec_auto_duty_adjust (cpu_temp w3) (gpu_temp w3) (fan_duty w3)
                  in if (next_duty \<noteq> - 1 \<and> next_duty \<noteq> auto_duty_val w3) \<or>
                        (next_duty = 0 \<and> fan_duty w3 \<noteq> 0)
                     then Inr (w3\<lparr>ports := snd (ec_write_fan_duty hw next_duty (ports w3)),
                                  auto_duty_val := next_duty\<rparr>)
                     else Inr w3)))"

text \<open>
  The calls of \<open>setuid\<close> and \<open>system\<close> before the loop are not modelled.
  The loop runs while \<open>global_running_flag\<close> is set.  A run in which the flag is seen
  set \<open>length envs\<close> times is the recursion over the answers of the operating system,
  one per iteration.
\<close>

fun ec_worker_loop :: "hardware \<Rightarrow> tick_env list \<Rightarrow> worker \<Rightarrow> errc \<times> worker" where
  "ec_worker_loop hw [] w = (EXIT_SUCCESS, w)"
| "ec_worker_loop hw (env # envs) w =
     (case ec_worker_tick hw env w of
        Inl r \<Rightarrow> r
      | Inr w' \<Rightarrow> ec_worker_loop hw envs w')"

definition ec_worker :: "hardware \<Rightarrow> tick_env list \<Rightarrow> ec_ports \<Rightarrow> errc \<times> worker" where
  "ec_worker hw envs p =
     ec_worker_loop hw envs
       \<lparr>cpu_temp = 0, gpu_temp = 0, fan_duty = 0, auto_duty_val = - 1,
        open_fds = [], ports = p\<rparr>"

section \<open>Command line\<close>

text \<open>
  \<open>std::from_chars\<close> for \<open>int32_t\<close> in base 10, after the C++ standard: an optional minus
  sign and then the longest run of decimal digits; no leading white space, no plus
  sign.  No digit: \<open>invalid_argument\<close>, and the value is left alone.  A number that does
  not fit the type: \<open>result_out_of_range\<close>.  Characters after the digits are not
  looked at.
\<close>

definition is_digit :: "char \<Rightarrow> bool" where
  "is_digit c = (c \<in> set ''0123456789'')"

definition digit_val :: "char \<Rightarrow> int" where
  "digit_val c = of_char c - 48"

definition from_chars :: "string \<Rightarrow> errc + int" where
  "from_chars s =
     (let neg = (s \<noteq> [] \<and> hd s = CHR ''-'');
          ds = takeWhile is_digit (if neg then tl s else s);
          n = foldl (\<lambda>a c. a * 10 + digit_val c) 0 ds;
          val = (if neg then - n else n)
      in if ds = [] then Inl invalid_argument
         else if in_int32 val then Inr val
         else Inl result_out_of_range)"

definition ec_init :: "int \<Rightarrow> int \<Rightarrow> errc" where
  "ec_init ioperm_data ioperm_sc =
     (if ioperm_data \<noteq> 0 then ioperm_data
      else if ioperm_sc \<noteq> 0 then ioperm_sc
      else EXIT_SUCCESS)"

text \<open>
  \<open>ec_main\<close> returns a \<open>std::error_code\<close>, here its value.  \<open>ioperm_data\<close> and
  \<open>ioperm_sc\<close> are the return values of the two calls of \<open>ioperm\<close>, and \<open>envs\<close> the
  answers of the operating system to the control loop.  Signal handlers are not
  modelled.
\<close>

definition ec_main ::
  "hardware \<Rightarrow> int \<Rightarrow> int \<Rightarrow> tick_env list \<Rightarrow> string list \<Rightarrow> ec_ports \<Rightarrow> errc \<times> ec_ports"
  where
  "ec_main hw ioperm_data ioperm_sc envs args p =
     (let e = ec_init ioperm_data ioperm_sc
      in if e \<noteq> 0 then (e, p)
         else if length args \<le> 1 then (0, snd (dump_fan hw p))
         else if list_ex (\<lambda>s. s = ''--help'' \<or> s = ''-h'') (drop 1 args)
         then (0, snd (dump_fan hw p))
         else
           (case from_chars (args ! 1) of
              Inl err \<Rightarrow> (err, p)
            | Inr val \<Rightarrow>
                if val < - 1 \<or> val > 100 then (0, p)
                else if val = - 1
                then (case ec_worker hw envs p of (err, w) \<Rightarrow> (err, ports w))
                else set_fan hw val p))"

definition main :: "hardware \<Rightarrow> int \<Rightarrow> int \<Rightarrow> tick_env list \<Rightarrow> string list \<Rightarrow> int" where
  "main hw ioperm_data ioperm_sc envs argv =
     (if fst (ec_main hw ioperm_data ioperm_sc envs argv \<lparr>inb_calls = 0, outb_log = []\<rparr>) \<noteq> 0
      then EXIT_FAILURE else EXIT_SUCCESS)"

section \<open>Properties of double rounding\<close>

text \<open>
  The model of rounding is correct to half a unit in the last place: \<open>binade\<close> finds the
  exponent, and \<open>fl x\<close> differs from \<open>x\<close> by at most \<open>\<bar>x\<bar> / 2 ^ 53\<close>.
\<close>

lemma round_even_error: "\<bar>of_int (round_even m) - m\<bar> \<le> (1/2 :: rat)"
proof -
  define f where "f = \<lfloor>m\<rfloor>"
  have b: "of_int f \<le> m" "m < of_int f + 1" unfolding f_def by linarith+
  have r: "round_even m =
      (if m - of_int f < 1 / 2 then f
       else if m - of_int f > 1 / 2 then f + 1
       else if even f then f else f + 1)"
    unfolding round_even_def Let_def f_def ..
  consider "m - of_int f < 1 / 2" | "m - of_int f > 1 / 2" | "m - of_int f = 1 / 2"
    by linarith
  then show ?thesis
  proof cases
    case 1
    then have "round_even m = f" using r by simp
    then show ?thesis using 1 b by simp
  next
    case 2
    then have "round_even m = f + 1" using r by simp
    then show ?thesis using 2 b by simp
  next
    case 3
    then have "round_even m = f \<or> round_even m = f + 1" using r by simp
    then show ?thesis using 3 b by auto
  qed
qed

lemma binade_bounds:
  assumes "x \<noteq> 0"
  shows "2 powi binade x \<le> \<bar>x\<bar> \<and> \<bar>x\<bar> < 2 powi (binade x + 1)"
proof -
  obtain p q where pq: "quotient_of \<bar>x\<bar> = (p, q)" by (cases "quotient_of \<bar>x\<bar>")
  have q: "0 < q" using pq by (rule quotient_of_denom_pos)
  have x: "\<bar>x\<bar> = of_int p / of_int q" using pq by (rule quotient_of_div)
  have "0 < \<bar>x\<bar>" using assms by simp
  then have p: "0 < p" unfolding x using q by (simp add: zero_less_divide_iff)
  define a where "a = floorlog 2 (nat p)"
  define b where "b = floorlog 2 (nat q)"
  define d where "d = int a - int b"
  have pa: "2 ^ (a - 1) \<le> nat p \<and> nat p < 2 ^ a"
    unfolding a_def using p by (intro floorlog_bounds) auto
  have qb: "2 ^ (b - 1) \<le> nat q \<and> nat q < 2 ^ b"
    unfolding b_def using q by (intro floorlog_bounds) auto
  have a1: "1 \<le> a" unfolding a_def using p by (simp add: floorlog_def)
  have b1: "1 \<le> b" unfolding b_def using q by (simp add: floorlog_def)
  have pa': "(2::rat) ^ (a - 1) \<le> of_int p \<and> (of_int p :: rat) < 2 ^ a"
  proof -
    have "(of_nat (2 ^ (a - 1)) :: rat) \<le> of_nat (nat p)"
      using pa by (simp only: of_nat_le_iff)
    moreover have "(of_nat (nat p) :: rat) < of_nat (2 ^ a)"
      using pa by (simp only: of_nat_less_iff)
    moreover have "(of_nat (nat p) :: rat) = of_int p" using p by simp
    ultimately show ?thesis by simp
  qed
  have qb': "(2::rat) ^ (b - 1) \<le> of_int q \<and> (of_int q :: rat) < 2 ^ b"
  proof -
    have "(of_nat (2 ^ (b - 1)) :: rat) \<le> of_nat (nat q)"
      using qb by (simp only: of_nat_le_iff)
    moreover have "(of_nat (nat q) :: rat) < of_nat (2 ^ b)"
      using qb by (simp only: of_nat_less_iff)
    moreover have "(of_nat (nat q) :: rat) = of_int q" using q by simp
    ultimately show ?thesis by simp
  qed
  have qpos: "(0::rat) < of_int q" using q by simp
  have up: "\<bar>x\<bar> < 2 powi (d + 1)"
  proof -
    have "2 powi (d + 1) = (2::rat) ^ a / 2 ^ (b - 1)"
    proof -
      have "d + 1 = int a - int (b - 1)" unfolding d_def using b1 by simp
      then show ?thesis by (simp add: power_int_diff)
    qed
    moreover have "of_int p / of_int q < (2::rat) ^ a / 2 ^ (b - 1)"
    proof -
      have "of_int p / of_int q < (2::rat) ^ a / of_int q"
        using pa' qpos by (simp add: divide_strict_right_mono)
      also have "\<dots> \<le> 2 ^ a / 2 ^ (b - 1)"
        using qb' qpos by (intro divide_left_mono mult_pos_pos) auto
      finally show ?thesis .
    qed
    ultimately show ?thesis unfolding x by simp
  qed
  have lo: "2 powi (d - 1) \<le> \<bar>x\<bar>"
  proof -
    have "2 powi (d - 1) = (2::rat) ^ (a - 1) / 2 ^ b"
    proof -
      have "d - 1 = int (a - 1) - int b" unfolding d_def using a1 by simp
      then show ?thesis by (simp add: power_int_diff)
    qed
    moreover have "(2::rat) ^ (a - 1) / 2 ^ b \<le> of_int p / of_int q"
    proof -
      have "(2::rat) ^ (a - 1) / 2 ^ b \<le> 2 ^ (a - 1) / of_int q"
        using qb' qpos by (intro divide_left_mono mult_pos_pos) auto
      also have "\<dots> \<le> of_int p / of_int q"
        using pa' qpos by (simp add: divide_right_mono)
      finally show ?thesis .
    qed
    ultimately show ?thesis unfolding x by simp
  qed
  have bin: "binade x = (if 2 powi d \<le> \<bar>x\<bar> then d else d - 1)"
    unfolding binade_def pq prod.case Let_def d_def a_def b_def by simp
  show ?thesis
  proof (cases "2 powi d \<le> \<bar>x\<bar>")
    case True
    then show ?thesis using up bin by simp
  next
    case False
    then have "binade x = d - 1" using bin by simp
    then show ?thesis using lo False by simp
  qed
qed

lemma fl_abs_error:
  assumes "x \<noteq> 0"
  shows "\<bar>fl x - x\<bar> \<le> 2 powi (binade x - 53)"
proof -
  define u :: rat where "u = 2 powi (binade x - 52)"
  have u: "0 < u" unfolding u_def by simp
  define m where "m = x / u"
  have "fl x = of_int (round_even m) * u"
    using assms unfolding fl_def Let_def m_def u_def by simp
  moreover have "x = m * u" unfolding m_def using u by simp
  ultimately have "fl x - x = (of_int (round_even m) - m) * u"
    by (simp add: algebra_simps)
  then have "\<bar>fl x - x\<bar> = \<bar>of_int (round_even m) - m\<bar> * u"
    using u by (simp add: abs_mult)
  also have "\<dots> \<le> 1 / 2 * u"
    using round_even_error[of m] u by (intro mult_right_mono) auto
  also have "\<dots> = 2 powi (binade x - 53)"
  proof -
    have "2 powi (binade x - 53 + 1) = 2 powi (binade x - 53) * (2::rat)"
      by (rule power_int_add_1) simp
    moreover have "binade x - 53 + 1 = binade x - 52" by simp
    ultimately have "u = 2 powi (binade x - 53) * 2"
      unfolding u_def by simp
    then show ?thesis by simp
  qed
  finally show ?thesis .
qed

lemma fl_rel_error: "\<bar>fl x - x\<bar> \<le> \<bar>x\<bar> / 2 ^ 53"
proof (cases "x = 0")
  case True
  then show ?thesis by (simp add: fl_def)
next
  case False
  have "2 powi (binade x - 53) = (2::rat) powi binade x / 2 ^ 53"
    by (simp add: power_int_diff)
  also have "\<dots> \<le> \<bar>x\<bar> / 2 ^ 53"
    using binade_bounds[OF False] by (simp add: divide_right_mono)
  finally show ?thesis using fl_abs_error[OF False] by simp
qed

text \<open>
  Conversely the exponent and the rounded significand are determined by their bounds,
  which evaluates \<open>fl\<close> on a given number.
\<close>

lemma binade_unique:
  assumes "2 powi e \<le> \<bar>x\<bar>" "\<bar>x\<bar> < 2 powi (e + 1)"
  shows "binade x = e"
proof -
  have "(0::rat) < 2 powi e" by simp
  with assms(1) have "0 < \<bar>x\<bar>" by linarith
  then have "x \<noteq> 0" by simp
  then have b: "2 powi binade x \<le> \<bar>x\<bar>" "\<bar>x\<bar> < 2 powi (binade x + 1)"
    using binade_bounds by blast+
  have "\<not> binade x < e"
  proof
    assume "binade x < e"
    then have "(2::rat) powi (binade x + 1) \<le> 2 powi e"
      by (intro power_int_increasing) auto
    then show False using b(2) assms(1) by simp
  qed
  moreover have "\<not> e < binade x"
  proof
    assume "e < binade x"
    then have "(2::rat) powi (e + 1) \<le> 2 powi binade x"
      by (intro power_int_increasing) auto
    then show False using b(1) assms(2) by simp
  qed
  ultimately show ?thesis by simp
qed

lemma round_even_eqI:
  assumes "of_int n - 1 / 2 < m" "m < of_int n + 1 / 2"
  shows "round_even m = n"
proof -
  define f where "f = \<lfloor>m\<rfloor>"
  have b: "of_int f \<le> m" "m < of_int f + 1" unfolding f_def by linarith+
  have r: "round_even m =
      (if m - of_int f < 1 / 2 then f
       else if m - of_int f > 1 / 2 then f + 1
       else if even f then f else f + 1)"
    unfolding round_even_def Let_def f_def ..
  have "(of_int f :: rat) < of_int n + 1 / 2" using b(1) assms(2) by linarith
  then have "(of_int f :: rat) < of_int (n + 1)" by simp
  then have fn: "f \<le> n" by (simp only: of_int_less_iff)
  have "(of_int n :: rat) - 1 / 2 < of_int f + 1" using b(2) assms(1) by linarith
  then have "(of_int (n - 1) :: rat) < of_int (f + 1)" by simp
  then have nf: "n - 1 \<le> f" by (simp only: of_int_less_iff)
  from fn nf consider "f = n" | "f = n - 1" by linarith
  then show ?thesis
  proof cases
    case 1
    then have "m - of_int f < 1 / 2" using assms(2) by simp
    then show ?thesis using r 1 by simp
  next
    case 2
    then have "m - of_int f > 1 / 2" using assms(1) by simp
    then show ?thesis using r 2 by simp
  qed
qed

lemma fl_eqI:
  assumes "2 powi e \<le> \<bar>x\<bar>" "\<bar>x\<bar> < 2 powi (e + 1)"
    and "of_int n - 1 / 2 < x / 2 powi (e - 52)" "x / 2 powi (e - 52) < of_int n + 1 / 2"
  shows "fl x = of_int n * 2 powi (e - 52)"
proof -
  have "(0::rat) < 2 powi e" by simp
  with assms(1) have "0 < \<bar>x\<bar>" by linarith
  then have "x \<noteq> 0" by simp
  then show ?thesis
    unfolding fl_def Let_def binade_unique[OF assms(1,2)] round_even_eqI[OF assms(3,4)]
    by simp
qed

section \<open>Properties of the duty decoder\<close>

lemma calculate_fan_duty_zero: "calculate_fan_duty 0 = 0"
  by (simp add: calculate_fan_duty_def fl_def trunc_def)

text \<open>
  For a raw byte that is not a multiple of 51 the exact quotient \<open>100 r / 255\<close> is at
  least \<open>5 / 255\<close> away from every integer, much more than the two roundings can move
  the result.  For the multiples of 51 the exact quotient is an integer, and the two
  roundings are evaluated.
\<close>

lemma dvd20:
  assumes "\<not> 51 dvd r"
  shows "\<not> 51 dvd (r * 20 :: int)"
proof
  assume "51 dvd r * 20"
  then have "51 dvd r * 20 * 23" by (rule dvd_mult2)
  moreover have "(51::int) dvd 51 * (9 * r)" by (rule dvd_triv_left)
  ultimately have "51 dvd r * 20 * 23 - 51 * (9 * r)" by (rule dvd_diff)
  moreover have "r * 20 * 23 - 51 * (9 * r) = r" by simp
  ultimately show False using assms by simp
qed

lemma mod_bounds:
  assumes "\<not> 51 dvd (r::int)"
  shows "5 \<le> (r * 100) mod 255 \<and> (r * 100) mod 255 \<le> 250"
proof -
  define t where "t = (r * 20) mod 51"
  have "(r * 100) mod 255 = (5 * (r * 20)) mod (5 * 51)" by (simp add: mult.commute)
  also have "\<dots> = 5 * t" unfolding t_def by (simp only: mult_mod_right)
  finally have m: "(r * 100) mod 255 = 5 * t" .
  have "t \<noteq> 0" unfolding t_def using dvd20[OF assms] by (simp add: mod_eq_0_iff_dvd)
  moreover have "0 \<le> t" "t < 51" unfolding t_def by simp_all
  ultimately show ?thesis unfolding m by simp
qed

lemma calculate_fan_duty_generic:
  assumes "0 < r" "r \<le> 255" "\<not> 51 dvd r"
  shows "calculate_fan_duty r = r * 100 div 255"
proof -
  define x :: rat where "x = of_int r / 255"
  define v :: rat where "v = x * 100"
  define a where "a = fl x"
  define c where "c = fl (a * 100)"
  define k where "k = r * 100 div 255"
  define m where "m = (r * 100) mod 255"
  define eps :: rat where "eps = 1 / 2 ^ 53"
  have x: "0 < x" "x \<le> 1" unfolding x_def using assms by simp_all
  have v: "0 < v" "v \<le> 100" unfolding v_def using x by simp_all
  have ea: "\<bar>a - x\<bar> \<le> x * eps"
    using fl_rel_error[of x] x unfolding a_def eps_def by simp
  have ep: "\<bar>a * 100 - v\<bar> \<le> v * eps"
  proof -
    have "\<bar>a * 100 - v\<bar> = \<bar>a - x\<bar> * 100"
      unfolding v_def by (simp add: abs_if algebra_simps)
    also have "\<dots> \<le> x * eps * 100" using ea by simp
    finally show ?thesis unfolding v_def by (simp add: algebra_simps)
  qed
  have eps: "0 < eps" "eps \<le> 1" unfolding eps_def by simp_all
  have a100: "\<bar>a * 100\<bar> \<le> 2 * v"
  proof -
    have "\<bar>a * 100\<bar> \<le> v + v * eps" using ep v by (simp add: abs_if split: if_splits)
    also have "\<dots> \<le> v + v * 1" using eps v by (intro add_left_mono mult_left_mono) auto
    finally show ?thesis by simp
  qed
  have ec: "\<bar>c - a * 100\<bar> \<le> 2 * v * eps"
  proof -
    have "\<bar>c - a * 100\<bar> \<le> \<bar>a * 100\<bar> * eps"
      using fl_rel_error[of "a * 100"] unfolding c_def eps_def by simp
    also have "\<dots> \<le> 2 * v * eps" using a100 eps by (intro mult_right_mono) auto
    finally show ?thesis .
  qed
  have "c - v = (c - a * 100) + (a * 100 - v)" by simp
  then have "\<bar>c - v\<bar> \<le> \<bar>c - a * 100\<bar> + \<bar>a * 100 - v\<bar>"
    by (simp only: abs_triangle_ineq)
  also have "\<dots> \<le> 2 * v * eps + v * eps" using ec ep by (rule add_mono)
  also have "\<dots> = 3 * eps * v" by (simp add: algebra_simps)
  also have "\<dots> \<le> 3 * eps * 100" using v eps by (intro mult_left_mono) auto
  also have "\<dots> < 5 / 255" unfolding eps_def by simp
  finally have cv: "\<bar>c - v\<bar> < 5 / 255" .
  have mb: "5 \<le> m \<and> m \<le> 250" unfolding m_def using assms(3) by (rule mod_bounds)
  have "r * 100 = 255 * k + m"
    unfolding k_def m_def by (rule mult_div_mod_eq[symmetric])
  then have "(of_int (r * 100) :: rat) = of_int (255 * k + m)" by simp
  then have "v = of_int k + of_int m / 255" unfolding v_def x_def by (simp add: field_simps)
  moreover have "(5::rat) / 255 \<le> of_int m / 255" "(of_int m :: rat) / 255 \<le> 250 / 255"
    using mb by (simp_all add: divide_right_mono)
  ultimately have vk: "of_int k + 5 / 255 \<le> v" "v \<le> of_int k + 250 / 255" by simp_all
  have "of_int k < c \<and> c < of_int k + 1" using vk cv by (simp add: abs_if split: if_splits)
  then have fc: "\<lfloor>c\<rfloor> = k" by (simp add: floor_unique)
  have "0 \<le> k" unfolding k_def using assms by simp
  then have "0 \<le> c" using \<open>of_int k < c \<and> c < of_int k + 1\<close> by simp
  then have "trunc c = k" unfolding trunc_def using fc by simp
  then show ?thesis unfolding calculate_fan_duty_def c_def a_def x_def k_def .
qed

lemma calculate_fan_duty_51: "calculate_fan_duty 51 = 20"
proof -
  have "fl (1 / 5) = of_int 7205759403792794 * 2 powi (- 3 - 52)"
    by (rule fl_eqI) (simp_all add: power_int_minus)
  then have a: "fl (1 / 5) = 3602879701896397 / 18014398509481984"
    by (simp add: power_int_minus)
  have "fl (3602879701896397 / 18014398509481984 * 100) =
      of_int 5629499534213120 * 2 powi (4 - 52)"
    by (rule fl_eqI) (simp_all add: power_int_minus)
  then have c: "fl (3602879701896397 / 18014398509481984 * 100) = 20"
    by (simp add: power_int_minus)
  have q: "(of_int 51 :: rat) / 255 = 1 / 5" by simp
  show ?thesis unfolding calculate_fan_duty_def q a c by (simp add: trunc_def)
qed

lemma calculate_fan_duty_102: "calculate_fan_duty 102 = 40"
proof -
  have "fl (2 / 5) = of_int 7205759403792794 * 2 powi (- 2 - 52)"
    by (rule fl_eqI) (simp_all add: power_int_minus)
  then have a: "fl (2 / 5) = 3602879701896397 / 9007199254740992"
    by (simp add: power_int_minus)
  have "fl (3602879701896397 / 9007199254740992 * 100) =
      of_int 5629499534213120 * 2 powi (5 - 52)"
    by (rule fl_eqI) (simp_all add: power_int_minus)
  then have c: "fl (3602879701896397 / 9007199254740992 * 100) = 40"
    by (simp add: power_int_minus)
  have q: "(of_int 102 :: rat) / 255 = 2 / 5" by simp
  show ?thesis unfolding calculate_fan_duty_def q a c by (simp add: trunc_def)
qed

lemma calculate_fan_duty_153: "calculate_fan_duty 153 = 60"
proof -
  have "fl (3 / 5) = of_int 5404319552844595 * 2 powi (- 1 - 52)"
    by (rule fl_eqI) (simp_all add: power_int_minus)
  then have a: "fl (3 / 5) = 5404319552844595 / 9007199254740992"
    by (simp add: power_int_minus)
  have "fl (5404319552844595 / 9007199254740992 * 100) =
      of_int 8444249301319680 * 2 powi (5 - 52)"
    by (rule fl_eqI) (simp_all add: power_int_minus)
  then have c: "fl (5404319552844595 / 9007199254740992 * 100) = 60"
    by (simp add: power_int_minus)
  have q: "(of_int 153 :: rat) / 255 = 3 / 5" by simp
  show ?thesis unfolding calculate_fan_duty_def q a c by (simp add: trunc_def)
qed

lemma calculate_fan_duty_204: "calculate_fan_duty 204 = 80"
proof -
  have "fl (4 / 5) = of_int 7205759403792794 * 2 powi (- 1 - 52)"
    by (rule fl_eqI) (simp_all add: power_int_minus)
  then have a: "fl (4 / 5) = 3602879701896397 / 4503599627370496"
    by (simp add: power_int_minus)
  have "fl (3602879701896397 / 4503599627370496 * 100) =
      of_int 5629499534213120 * 2 powi (6 - 52)"
    by (rule fl_eqI) (simp_all add: power_int_minus)
  then have c: "fl (3602879701896397 / 4503599627370496 * 100) = 80"
    by (simp add: power_int_minus)
  have q: "(of_int 204 :: rat) / 255 = 4 / 5" by simp
  show ?thesis unfolding calculate_fan_duty_def q a c by (simp add: trunc_def)
qed

lemma calculate_fan_duty_255: "calculate_fan_duty 255 = 100"
proof -
  have "fl 1 = of_int 4503599627370496 * 2 powi (0 - 52)"
    by (rule fl_eqI) (simp_all add: power_int_minus)
  then have a: "fl 1 = 1" by (simp add: power_int_minus)
  have "fl 100 = of_int 7036874417766400 * 2 powi (6 - 52)"
    by (rule fl_eqI) (simp_all add: power_int_minus)
  then have c: "fl 100 = 100" by (simp add: power_int_minus)
  show ?thesis unfolding calculate_fan_duty_def by (simp add: a c trunc_def)
qed

text \<open>The double computation of \<open>calculate_fan_duty\<close> on a byte is an integer division.\<close>

lemma calculate_fan_duty_byte:
  assumes "0 \<le> r" "r \<le> 255"
  shows "calculate_fan_duty r = r * 100 div 255"
proof (cases "51 dvd r")
  case False
  then have "r \<noteq> 0" by auto
  with assms have "0 < r" by simp
  then show ?thesis using assms(2) False by (rule calculate_fan_duty_generic)
next
  case True
  then obtain j where j: "r = 51 * j" by (auto simp: dvd_def)
  with assms have "0 \<le> j" "j \<le> 5" by simp_all
  then have "j = 0 \<or> j = 1 \<or> j = 2 \<or> j = 3 \<or> j = 4 \<or> j = 5" by arith
  then have "r = 0 \<or> r = 51 \<or> r = 102 \<or> r = 153 \<or> r = 204 \<or> r = 255"
    unfolding j by auto
  then show ?thesis
    using calculate_fan_duty_zero calculate_fan_duty_51 calculate_fan_duty_102
      calculate_fan_duty_153 calculate_fan_duty_204 calculate_fan_duty_255
    by auto
qed

text \<open>
  C4, as stated, fails: the decoder discards the fraction instead of rounding.  The raw
  byte 2 is 0.78 percent, which rounds to 1, and \<open>calculate_fan_duty\<close> returns 0.
\<close>

theorem calculate_fan_duty_not_rounded:
  "calculate_fan_duty 2 = 0 \<and> round (real_of_int 2 / 255 * 100) = 1"
proof
  show "calculate_fan_duty 2 = 0" by (simp add: calculate_fan_duty_byte)
  show "round (real_of_int 2 / 255 * 100) = 1" by (simp add: round_def)
qed

text \<open>
  C4, amended: for every raw byte \<open>r\<close> in \<open>[0, 255]\<close>, \<open>calculate_fan_duty r\<close> is
  \<open>r / 255 * 100\<close> rounded down to an integer; it is 100 at 255 and 0 at 0, and it is
  monotonically non-decreasing in \<open>r\<close>.
\<close>

theorem calculate_fan_duty_truncates:
  "(\<forall>r\<in>{0..255}. calculate_fan_duty r = \<lfloor>real_of_int r / 255 * 100\<rfloor>) \<and>
   calculate_fan_duty 255 = 100 \<and> calculate_fan_duty 0 = 0 \<and>
   (\<forall>r1\<in>{0..255}. \<forall>r2\<in>{0..255}.
      r1 \<le> r2 \<longrightarrow> calculate_fan_duty r1 \<le> calculate_fan_duty r2)"
proof (intro conjI ballI impI)
  fix r :: int assume r: "r \<in> {0..255}"
  have "real_of_int r / 255 * 100 = real_of_int (r * 100) / real_of_int 255" by simp
  then have "\<lfloor>real_of_int r / 255 * 100\<rfloor> = r * 100 div 255"
    by (simp only: floor_divide_of_int_eq)
  then show "calculate_fan_duty r = \<lfloor>real_of_int r / 255 * 100\<rfloor>"
    using r by (simp add: calculate_fan_duty_byte)
next
  show "calculate_fan_duty 255 = 100" by (rule calculate_fan_duty_255)
next
  show "calculate_fan_duty 0 = 0" by (rule calculate_fan_duty_zero)
next
  fix r1 r2 :: int
  assume r: "r1 \<in> {0..255}" "r2 \<in> {0..255}" "r1 \<le> r2"
  then have "r1 * 100 div 255 \<le> r2 * 100 div 255" by (intro zdiv_mono1) auto
  then show "calculate_fan_duty r1 \<le> calculate_fan_duty r2"
    using r by (simp add: calculate_fan_duty_byte)
qed

theorem calculate_fan_duty_truncates_witness:
  "calculate_fan_duty 42 = 16 \<and> calculate_fan_duty 42 \<le> calculate_fan_duty 43"
proof -
  have m: "(42::int) \<in> {0..255}" "(43::int) \<in> {0..255}" by simp_all
  have "\<lfloor>real_of_int 42 / 255 * 100\<rfloor> = 16" by simp
  moreover have "calculate_fan_duty 42 = \<lfloor>real_of_int 42 / 255 * 100\<rfloor>"
    using calculate_fan_duty_truncates m(1) by blast
  moreover have "calculate_fan_duty 42 \<le> calculate_fan_duty 43"
    using calculate_fan_duty_truncates m by force
  ultimately show ?thesis by simp
qed

section \<open>Properties of the thermal control algorithm\<close>

lemma identify_duty_cases:
  "identify_duty x =
     (if x = 0 then 0
      else if 15 \<le> x \<and> x \<le> 17 then 16
      else if 29 \<le> x \<and> x \<le> 31 then 30
      else if 39 \<le> x \<and> x \<le> 41 then 40
      else if 64 \<le> x \<and> x \<le> 66 then 65
      else if 89 \<le> x \<and> x \<le> 91 then 90
      else if 99 \<le> x \<and> x \<le> 101 then 100
      else x)"
  by (simp add: identify_duty_def allowed_duties_def duty_matches_def)

lemma canonical_duties_eq: "canonical_duties = {0, 16, 30, 40, 65, 90, 100}"
  by (simp add: canonical_duties_def allowed_duties_def)

lemma within_one_iff: "\<bar>x - L\<bar> \<le> 1 \<longleftrightarrow> L - 1 \<le> x \<and> x \<le> L + (1::int)"
  by arith

lemma sdiv_two_pos: "0 \<le> k \<Longrightarrow> k sdiv 2 = k div (2::int)"
  by (simp add: signed_divide_int_def sgn_if)

lemma new_duty_init_range: "new_duty_init t d \<in> {- 1, 0, 17, 30, 40, 65}"
  by (simp add: new_duty_init_def)

lemma identify_duty_offsets:
  "identify_duty f = f \<or> identify_duty f = f + 1 \<or>
   (identify_duty f = f - 1 \<and> f \<in> {17, 31, 41, 66, 91, 101})"
  unfolding identify_duty_cases by (simp split: if_splits) arith

lemma smoothed_above_current:
  assumes "t \<in> {- 1, 0, 17, 30, 40, 65}" and "f < t"
    and "2 < t - (identify_duty f + (t - f) div 2)"
  shows "f < identify_duty f + (t - f) div 2"
  using identify_duty_offsets[of f]
proof (elim disjE)
  assume "identify_duty f = f"
  then show ?thesis using assms by auto
next
  assume "identify_duty f = f + 1"
  then show ?thesis using assms by auto
next
  assume "identify_duty f = f - 1 \<and> f \<in> {17, 31, 41, 66, 91, 101}"
  then show ?thesis using assms by auto
qed

text \<open>
  For 32-bit inputs with \<open>fan_duty\<close> not within 66 of the least 32-bit integer, no
  intermediate value of \<open>ec_auto_duty_adjust\<close> leaves the 32-bit range, so the
  embedding over \<^typ>\<open>int\<close> computes what the source computes.
\<close>

lemma ec_auto_duty_adjust_no_overflow:
  assumes "in_int32 c" "in_int32 g" "in_int32 f" and "- (2 ^ 31) + 66 \<le> f"
  shows "let duty = identify_duty f;
             new_duty = new_duty_init (max c g) duty
         in in_int32 duty \<and> in_int32 new_duty \<and>
            (new_duty > f \<longrightarrow>
               in_int32 (new_duty - f) \<and>
               in_int32 ((new_duty - f) sdiv 2) \<and>
               in_int32 (duty + (new_duty - f) sdiv 2) \<and>
               in_int32 (new_duty - (duty + (new_duty - f) sdiv 2)))"
proof -
  define t where "t = new_duty_init (max c g) (identify_duty f)"
  have t: "t \<in> {- 1, 0, 17, 30, 40, 65}"
    unfolding t_def by (rule new_duty_init_range)
  have d: "identify_duty f - 1 \<le> f \<and> f \<le> identify_duty f + 1"
    by (simp add: identify_duty_cases)
  have d2: "in_int32 (identify_duty f)"
    using assms(3,4) unfolding in_int32_def identify_duty_cases by (simp split: if_splits)
  have "t > f \<longrightarrow>
          in_int32 (t - f) \<and> in_int32 ((t - f) sdiv 2) \<and>
          in_int32 (identify_duty f + (t - f) sdiv 2) \<and>
          in_int32 (t - (identify_duty f + (t - f) sdiv 2))"
  proof
    assume gt: "t > f"
    then have pos: "0 \<le> t - f" by simp
    show "in_int32 (t - f) \<and> in_int32 ((t - f) sdiv 2) \<and>
          in_int32 (identify_duty f + (t - f) sdiv 2) \<and>
          in_int32 (t - (identify_duty f + (t - f) sdiv 2))"
      unfolding sdiv_two_pos[OF pos] using t d gt assms(3,4) unfolding in_int32_def
      by auto
  qed
  moreover have "in_int32 t" using t unfolding in_int32_def by auto
  ultimately show ?thesis using d2 unfolding t_def Let_def by simp
qed

text \<open>
  C1, as stated, fails: at 55 degrees with the fan stopped the table selects 17 and the
  smoothing step returns 8, which is neither a canonical duty level nor \<open>- 1\<close>.
\<close>

theorem ec_auto_duty_adjust_not_canonical:
  "ec_auto_duty_adjust 55 0 0 = 8 \<and> 8 \<notin> canonical_duties \<union> {- 1}"
  by (simp add: ec_auto_duty_adjust_def identify_duty_cases new_duty_init_def
      canonical_duties_eq)

text \<open>
  C1, amended: for every input triple the table selects a target among
  \<open>- 1, 0, 17, 30, 40, 65\<close>, and \<open>ec_auto_duty_adjust\<close> returns either that target or, on
  an escalation, the smoothed value \<open>identify_duty fan_duty + (target - fan_duty) / 2\<close>,
  which then lies strictly between \<open>fan_duty\<close> and \<open>target - 2\<close>.
\<close>

theorem ec_auto_duty_adjust_range:
  "new_duty_init (max c g) (identify_duty f) \<in> {- 1, 0, 17, 30, 40, 65} \<and>
   (ec_auto_duty_adjust c g f = new_duty_init (max c g) (identify_duty f) \<or>
    (ec_auto_duty_adjust c g f =
       identify_duty f + (new_duty_init (max c g) (identify_duty f) - f) sdiv 2 \<and>
     f < ec_auto_duty_adjust c g f \<and>
     ec_auto_duty_adjust c g f < new_duty_init (max c g) (identify_duty f) - 2))"
proof -
  define t where "t = new_duty_init (max c g) (identify_duty f)"
  have t: "t \<in> {- 1, 0, 17, 30, 40, 65}"
    unfolding t_def by (rule new_duty_init_range)
  have r: "ec_auto_duty_adjust c g f =
      (if t > f
       then (if t - (identify_duty f + (t - f) sdiv 2) > 2
             then identify_duty f + (t - f) sdiv 2 else t)
       else t)"
    by (simp add: ec_auto_duty_adjust_def Let_def t_def)
  have "ec_auto_duty_adjust c g f = t \<or>
    (ec_auto_duty_adjust c g f = identify_duty f + (t - f) sdiv 2 \<and>
     f < ec_auto_duty_adjust c g f \<and> ec_auto_duty_adjust c g f < t - 2)"
  proof (cases "t > f \<and> t - (identify_duty f + (t - f) sdiv 2) > 2")
    case False
    then show ?thesis using r by auto
  next
    case True
    then have pos: "0 \<le> t - f" by simp
    have "f < identify_duty f + (t - f) div 2"
      using True smoothed_above_current[OF t] unfolding sdiv_two_pos[OF pos] by simp
    then show ?thesis using r True unfolding sdiv_two_pos[OF pos] by simp
  qed
  with t show ?thesis unfolding t_def by simp
qed

text \<open>
  C2: with \<open>target\<close> the value the table selects and \<open>adjusted = identify_duty fan_duty +
  (target - fan_duty) / 2\<close>, the result is \<open>adjusted\<close> when \<open>target\<close> exceeds \<open>fan_duty\<close> and
  \<open>target - adjusted > 2\<close>, and \<open>target\<close> in every other case, so a de-escalation is
  never smoothed.  With a maximal temperature of 90 and a duty of 30 the result is
  strictly between 30 and 65 and closer to 30 than to 65; with a maximal temperature of
  45 and a duty of 65 the result is 0.
\<close>

theorem smoothing_only_on_escalation:
  "(let target = new_duty_init (max c g) (identify_duty f);
        adjusted = identify_duty f + (target - f) sdiv 2;
        result = ec_auto_duty_adjust c g f
    in (target > f \<and> target - adjusted > 2 \<longrightarrow> result = adjusted) \<and>
       (target > f \<and> \<not> target - adjusted > 2 \<longrightarrow> result = target) \<and>
       (target \<le> f \<longrightarrow> result = target)) \<and>
   (max c g = 90 \<longrightarrow>
      30 < ec_auto_duty_adjust c g 30 \<and> ec_auto_duty_adjust c g 30 < 65 \<and>
      ec_auto_duty_adjust c g 30 - 30 < 65 - ec_auto_duty_adjust c g 30) \<and>
   (max c g = 45 \<longrightarrow> ec_auto_duty_adjust c g 65 = 0)"
proof (intro conjI)
  show "let target = new_duty_init (max c g) (identify_duty f);
        adjusted = identify_duty f + (target - f) sdiv 2;
        result = ec_auto_duty_adjust c g f
    in (target > f \<and> target - adjusted > 2 \<longrightarrow> result = adjusted) \<and>
       (target > f \<and> \<not> target - adjusted > 2 \<longrightarrow> result = target) \<and>
       (target \<le> f \<longrightarrow> result = target)"
    by (simp add: ec_auto_duty_adjust_def Let_def)
next
  have "max c g = 90 \<Longrightarrow> ec_auto_duty_adjust c g 30 = 47"
    by (simp add: ec_auto_duty_adjust_def Let_def identify_duty_cases new_duty_init_def)
  then show "max c g = 90 \<longrightarrow>
      30 < ec_auto_duty_adjust c g 30 \<and> ec_auto_duty_adjust c g 30 < 65 \<and>
      ec_auto_duty_adjust c g 30 - 30 < 65 - ec_auto_duty_adjust c g 30"
    by simp
next
  show "max c g = 45 \<longrightarrow> ec_auto_duty_adjust c g 65 = 0"
    by (simp add: ec_auto_duty_adjust_def Let_def identify_duty_cases new_duty_init_def)
qed

theorem smoothing_only_on_escalation_witness:
  "ec_auto_duty_adjust 90 60 30 = 47 \<and> ec_auto_duty_adjust 45 40 65 = 0 \<and>
   ec_auto_duty_adjust 78 0 40 = 40"
proof (intro conjI)
  have t: "new_duty_init (max 90 60) (identify_duty 30) = 65"
    by (simp add: identify_duty_cases new_duty_init_def)
  have a: "identify_duty 30 + (65 - 30) sdiv 2 = 47"
    by (simp add: identify_duty_cases sdiv_two_pos)
  show "ec_auto_duty_adjust 90 60 30 = 47"
    using smoothing_only_on_escalation[of 90 60 30] unfolding Let_def t a by simp
  show "ec_auto_duty_adjust 45 40 65 = 0"
    using smoothing_only_on_escalation[of 45 40 30] by simp
  have t': "new_duty_init (max 78 0) (identify_duty 40) = 40"
    by (simp add: identify_duty_cases new_duty_init_def)
  show "ec_auto_duty_adjust 78 0 40 = 40"
    using smoothing_only_on_escalation[of 78 0 40] unfolding Let_def t' by simp
qed

text \<open>
  C3, as stated, fails: 1 is within 1 of the canonical level 0, and \<open>identify_duty\<close>
  returns 1, which is not a canonical level.
\<close>

theorem identify_duty_one_not_snapped:
  "\<bar>1 - 0\<bar> \<le> (1::int) \<and> 0 \<in> canonical_duties \<and> identify_duty 1 = 1 \<and>
   identify_duty 1 \<notin> canonical_duties"
  by (simp add: identify_duty_cases canonical_duties_eq)

text \<open>
  C3, amended: for every integer \<open>x\<close>, \<open>identify_duty x\<close> is the canonical level \<open>L\<close>
  whenever \<open>L\<close> is not 0 and \<open>\<bar>x - L\<bar> \<le> 1\<close>; it is 0 for \<open>x = 0\<close>; and it is \<open>x\<close> in
  every other case, also for \<open>x = 1\<close> and \<open>x = - 1\<close>: the window of level 0 is 0 alone.
  In particular \<open>identify_duty 17 = 16\<close> and \<open>identify_duty 45 = 45\<close>.
\<close>

theorem identify_duty_snaps:
  "(\<forall>L \<in> canonical_duties. L \<noteq> 0 \<and> \<bar>x - L\<bar> \<le> 1 \<longrightarrow> identify_duty x = L) \<and>
   (x = 0 \<longrightarrow> identify_duty x = 0) \<and>
   (x \<noteq> 0 \<and> (\<forall>L \<in> canonical_duties. L \<noteq> 0 \<longrightarrow> \<not> \<bar>x - L\<bar> \<le> 1) \<longrightarrow>
      identify_duty x = x) \<and>
   identify_duty 17 = 16 \<and> identify_duty 45 = 45"
proof (intro conjI)
  show "\<forall>L \<in> canonical_duties. L \<noteq> 0 \<and> \<bar>x - L\<bar> \<le> 1 \<longrightarrow> identify_duty x = L"
    by (simp add: canonical_duties_eq within_one_iff identify_duty_cases)
  show "x = 0 \<longrightarrow> identify_duty x = 0"
    by (simp add: identify_duty_cases)
  show "x \<noteq> 0 \<and> (\<forall>L \<in> canonical_duties. L \<noteq> 0 \<longrightarrow> \<not> \<bar>x - L\<bar> \<le> 1) \<longrightarrow>
      identify_duty x = x"
    by (simp add: canonical_duties_eq within_one_iff identify_duty_cases)
  show "identify_duty 17 = 16" by (simp add: identify_duty_cases)
  show "identify_duty 45 = 45" by (simp add: identify_duty_cases)
qed

theorem identify_duty_snaps_witness:
  "identify_duty 29 = 30 \<and> identify_duty 0 = 0 \<and> identify_duty 1 = 1"
proof (intro conjI)
  have "(30::int) \<in> canonical_duties" by (simp add: canonical_duties_eq)
  moreover have "(30::int) \<noteq> 0 \<and> \<bar>29 - 30\<bar> \<le> (1::int)" by simp
  ultimately show "identify_duty 29 = 30"
    using identify_duty_snaps[of 29] by blast
  show "identify_duty 0 = 0"
    using identify_duty_snaps[of 0] by blast
  have "\<forall>L \<in> canonical_duties. L \<noteq> 0 \<longrightarrow> \<not> \<bar>1 - L\<bar> \<le> 1"
    by (simp add: canonical_duties_eq)
  moreover have "(1::int) \<noteq> 0" by simp
  ultimately show "identify_duty 1 = 1"
    using identify_duty_snaps[of 1] by blast
qed

text \<open>
  C10: for every input triple \<open>ec_auto_duty_adjust\<close> returns at most 65, so never the
  canonical levels 90 and 100; and 65 is returned, for instance at 85 degrees with the
  fan at 65.
\<close>

theorem ec_auto_duty_adjust_ceiling:
  "ec_auto_duty_adjust c g f \<le> 65 \<and> ec_auto_duty_adjust c g f \<noteq> 90 \<and>
   ec_auto_duty_adjust c g f \<noteq> 100 \<and> ec_auto_duty_adjust 85 85 65 = 65"
proof -
  have t: "new_duty_init (max c g) (identify_duty f) \<le> 65"
    using new_duty_init_range[of "max c g" "identify_duty f"] by auto
  have le: "ec_auto_duty_adjust c g f \<le> 65"
    using t by (auto simp: ec_auto_duty_adjust_def Let_def)
  have "ec_auto_duty_adjust 85 85 65 = 65"
    by (simp add: ec_auto_duty_adjust_def identify_duty_cases new_duty_init_def)
  with le show ?thesis by simp
qed

section \<open>Properties of the RPM decoder\<close>

lemma combine_or_add:
  assumes "0 \<le> lo" "lo \<le> 255"
  shows "push_bit 8 hi OR lo = push_bit 8 hi + (lo::int)"
proof -
  have "take_bit 8 lo = lo" using assms by (simp add: take_bit_int_eq_self)
  moreover have "push_bit 8 hi AND take_bit 8 lo = 0"
    by (auto simp: bit_eq_iff bit_and_iff bit_push_bit_iff bit_take_bit_iff)
  ultimately have "push_bit 8 hi AND lo = 0" by simp
  then show ?thesis by (simp add: disjunctive_add_eq_or)
qed

lemma le_div_of_mult_le:
  assumes "c1 * c2 \<le> K" "0 < c2"
  shows "c1 \<le> K div (c2::int)"
proof -
  have "c1 = (c1 * c2) div c2" using assms(2) by simp
  also have "\<dots> \<le> K div c2" using assms by (intro zdiv_mono1) auto
  finally show ?thesis .
qed

lemma div_mult_le_self: "0 < c2 \<Longrightarrow> K div c2 * c2 \<le> (K::int)"
  using div_mult_mod_eq[of K c2] pos_mod_sign[of c2 K] by linarith

lemma div_strict:
  assumes "0 < c1" "c1 < c2" "c1 * c2 \<le> (K::int)"
  shows "K div c2 < K div c1"
proof -
  have c2: "0 < c2" using assms by simp
  define q where "q = K div c2"
  have qc: "c1 \<le> q" unfolding q_def using assms(3) c2 by (rule le_div_of_mult_le)
  have "q * c2 \<le> K" unfolding q_def using c2 by (rule div_mult_le_self)
  moreover have "(q + 1) * c1 \<le> q * c2"
  proof -
    have "(q + 1) * c1 = q * c1 + c1" by (simp add: algebra_simps)
    also have "\<dots> \<le> q * c1 + q" using qc by simp
    also have "\<dots> = q * (c1 + 1)" by (simp add: algebra_simps)
    also have "\<dots> \<le> q * c2" using assms(1,2) qc by (intro mult_left_mono) auto
    finally show ?thesis .
  qed
  ultimately have "(q + 1) * c1 \<le> K" by simp
  then have "q + 1 \<le> K div c1" using assms(1) by (rule le_div_of_mult_le)
  then show ?thesis unfolding q_def by simp
qed

lemma calculate_fan_rpms_pos:
  "0 < push_bit 8 hi + lo \<Longrightarrow>
   calculate_fan_rpms hi lo = 2156220 div (push_bit 8 hi + lo)"
  by (simp add: calculate_fan_rpms_def signed_divide_int_def sgn_if)

text \<open>
  C9, as stated, fails: the combined raw values 2100 and 2101 (high byte 8, low bytes 52
  and 53) both decode to 1026 RPM, so the decoder is not strictly decreasing.
\<close>

theorem calculate_fan_rpms_tie:
  "push_bit 8 8 + 52 = (2100::int) \<and> push_bit 8 8 + 53 = (2101::int) \<and>
   calculate_fan_rpms 8 52 = 1026 \<and> calculate_fan_rpms 8 53 = 1026"
  by (simp add: calculate_fan_rpms_def)

text \<open>
  C9, amended: \<open>calculate_fan_rpms 0 0 = 0\<close>; for bytes \<open>hi\<close> and \<open>lo\<close> whose combined
  value \<open>(hi << 8) | lo\<close> is positive the result is \<open>floor (2156220 / combined)\<close>; for
  combined values \<open>0 < c1 < c2\<close> the result for \<open>c2\<close> is at most the result for \<open>c1\<close>, and
  strictly less when \<open>c1 * c2 \<le> 2156220\<close>.
\<close>

theorem calculate_fan_rpms_decoder:
  assumes "hi1 \<in> {0..255}" "lo1 \<in> {0..255}" "hi2 \<in> {0..255}" "lo2 \<in> {0..255}"
  shows "calculate_fan_rpms 0 0 = 0 \<and>
    (0 < (push_bit 8 hi1 OR lo1) \<longrightarrow>
       calculate_fan_rpms hi1 lo1 = \<lfloor>2156220 / real_of_int (push_bit 8 hi1 OR lo1)\<rfloor>) \<and>
    (0 < (push_bit 8 hi1 OR lo1) \<and> (push_bit 8 hi1 OR lo1) < (push_bit 8 hi2 OR lo2) \<longrightarrow>
       calculate_fan_rpms hi2 lo2 \<le> calculate_fan_rpms hi1 lo1) \<and>
    (0 < (push_bit 8 hi1 OR lo1) \<and> (push_bit 8 hi1 OR lo1) < (push_bit 8 hi2 OR lo2) \<and>
     (push_bit 8 hi1 OR lo1) * (push_bit 8 hi2 OR lo2) \<le> 2156220 \<longrightarrow>
       calculate_fan_rpms hi2 lo2 < calculate_fan_rpms hi1 lo1)"
proof -
  define c1 where "c1 = push_bit 8 hi1 + lo1"
  define c2 where "c2 = push_bit 8 hi2 + lo2"
  have o1: "push_bit 8 hi1 OR lo1 = c1"
    unfolding c1_def using assms(2) by (intro combine_or_add) auto
  have o2: "push_bit 8 hi2 OR lo2 = c2"
    unfolding c2_def using assms(4) by (intro combine_or_add) auto
  have r1: "0 < c1 \<Longrightarrow> calculate_fan_rpms hi1 lo1 = 2156220 div c1"
    unfolding c1_def by (rule calculate_fan_rpms_pos)
  have r2: "0 < c2 \<Longrightarrow> calculate_fan_rpms hi2 lo2 = 2156220 div c2"
    unfolding c2_def by (rule calculate_fan_rpms_pos)
  have z: "calculate_fan_rpms 0 0 = 0" by (simp add: calculate_fan_rpms_def)
  have quot: "0 < c1 \<longrightarrow> calculate_fan_rpms hi1 lo1 = \<lfloor>2156220 / real_of_int c1\<rfloor>"
  proof
    assume p: "0 < c1"
    have "\<lfloor>2156220 / real_of_int c1\<rfloor> = 2156220 div c1"
      by (metis floor_divide_of_int_eq of_int_numeral)
    then show "calculate_fan_rpms hi1 lo1 = \<lfloor>2156220 / real_of_int c1\<rfloor>"
      using r1[OF p] by simp
  qed
  have mono: "0 < c1 \<and> c1 < c2 \<longrightarrow>
      calculate_fan_rpms hi2 lo2 \<le> calculate_fan_rpms hi1 lo1"
  proof
    assume p: "0 < c1 \<and> c1 < c2"
    then have "2156220 div c2 \<le> 2156220 div c1" by (intro zdiv_mono2) auto
    then show "calculate_fan_rpms hi2 lo2 \<le> calculate_fan_rpms hi1 lo1"
      using p r1 r2 by simp
  qed
  have strict: "0 < c1 \<and> c1 < c2 \<and> c1 * c2 \<le> 2156220 \<longrightarrow>
      calculate_fan_rpms hi2 lo2 < calculate_fan_rpms hi1 lo1"
  proof
    assume p: "0 < c1 \<and> c1 < c2 \<and> c1 * c2 \<le> 2156220"
    then have "2156220 div c2 < 2156220 div c1" by (intro div_strict) auto
    then show "calculate_fan_rpms hi2 lo2 < calculate_fan_rpms hi1 lo1"
      using p r1 r2 by simp
  qed
  show ?thesis unfolding o1 o2 using z quot mono strict by blast
qed

theorem calculate_fan_rpms_decoder_witness:
  "calculate_fan_rpms 2 0 = 4211 \<and> calculate_fan_rpms 8 53 \<le> calculate_fan_rpms 8 52 \<and>
   calculate_fan_rpms 2 1 < calculate_fan_rpms 2 0"
proof -
  have b: "(2::int) \<in> {0..255}" "(0::int) \<in> {0..255}" "(1::int) \<in> {0..255}"
    "(8::int) \<in> {0..255}" "(52::int) \<in> {0..255}" "(53::int) \<in> {0..255}" by simp_all
  have "\<lfloor>2156220 / real_of_int (push_bit 8 2 OR 0)\<rfloor> = 4211" by simp
  then have 1: "calculate_fan_rpms 2 0 = 4211"
    using calculate_fan_rpms_decoder[OF b(1) b(2) b(1) b(3)] by simp
  have "(push_bit 8 8 OR 52 :: int) = 2100" "(push_bit 8 8 OR 53 :: int) = 2101" by simp_all
  then have 2: "calculate_fan_rpms 8 53 \<le> calculate_fan_rpms 8 52"
    using calculate_fan_rpms_decoder[OF b(4) b(5) b(4) b(6)] by simp
  have "(push_bit 8 2 OR 0 :: int) = 512" "(push_bit 8 2 OR 1 :: int) = 513" by simp_all
  then have 3: "calculate_fan_rpms 2 1 < calculate_fan_rpms 2 0"
    using calculate_fan_rpms_decoder[OF b(1) b(2) b(1) b(3)] by simp
  from 1 2 3 show ?thesis by simp
qed

section \<open>Properties of the EC protocol engine\<close>

lemma ec_io_wait_loop_spec:
  assumes "0 \<le> rc" "rc < 100"
  shows "case ec_io_wait_loop hw port flag v rc n of (err, n') \<Rightarrow>
     n < n' \<and> n' \<le> n + nat (100 - rc) \<and>
     (\<forall>i. n \<le> i \<and> Suc i < n' \<longrightarrow> \<not> flag_is (hw i port) flag v) \<and>
     ((err = EXIT_SUCCESS \<and> flag_is (hw (n' - 1) port) flag v) \<or>
      (err = timed_out \<and> n' = n + nat (100 - rc) \<and> \<not> flag_is (hw (n' - 1) port) flag v))"
  using assms
proof (induction hw port flag v rc n rule: ec_io_wait_loop.induct)
  case (1 hw port flag v rc n)
  show ?case
  proof (cases "flag_is (hw n port) flag v")
    case True
    then have "ec_io_wait_loop hw port flag v rc n = (EXIT_SUCCESS, Suc n)"
      by (subst ec_io_wait_loop.simps) simp
    with True "1.prems" show ?thesis by auto
  next
    case False
    show ?thesis
    proof (cases "rc + 1 \<ge> 100")
      case True
      with False have "ec_io_wait_loop hw port flag v rc n = (timed_out, Suc n)"
        by (subst ec_io_wait_loop.simps) simp
      moreover from True "1.prems" have "rc = 99" by simp
      ultimately show ?thesis using False by auto
    next
      case nt: False
      with False have eq: "ec_io_wait_loop hw port flag v rc n =
          ec_io_wait_loop hw port flag v (rc + 1) (Suc n)"
        by (subst ec_io_wait_loop.simps) simp
      have ih: "case ec_io_wait_loop hw port flag v (rc + 1) (Suc n) of (err, n') \<Rightarrow>
         Suc n < n' \<and> n' \<le> Suc n + nat (100 - (rc + 1)) \<and>
         (\<forall>i. Suc n \<le> i \<and> Suc i < n' \<longrightarrow> \<not> flag_is (hw i port) flag v) \<and>
         ((err = EXIT_SUCCESS \<and> flag_is (hw (n' - 1) port) flag v) \<or>
          (err = timed_out \<and> n' = Suc n + nat (100 - (rc + 1)) \<and>
           \<not> flag_is (hw (n' - 1) port) flag v))"
        using "1.IH"[OF False nt] "1.prems" nt by simp
      have step: "Suc n + nat (100 - (rc + 1)) = n + nat (100 - rc)"
        using "1.prems" nt by simp
      obtain err n' where r: "ec_io_wait_loop hw port flag v (rc + 1) (Suc n) = (err, n')"
        by (cases "ec_io_wait_loop hw port flag v (rc + 1) (Suc n)")
      have "\<forall>i. n \<le> i \<and> Suc i < n' \<longrightarrow> \<not> flag_is (hw i port) flag v"
      proof (intro allI impI)
        fix i assume i: "n \<le> i \<and> Suc i < n'"
        show "\<not> flag_is (hw i port) flag v"
        proof (cases "i = n")
          case True then show ?thesis using False by simp
        next
          case False
          then have "Suc n \<le> i" using i by simp
          then show ?thesis using ih i unfolding r by simp
        qed
      qed
      then show ?thesis using ih unfolding eq r step by auto
    qed
  qed
qed

text \<open>
  C6: \<open>ec_io_wait\<close> is a total function (its loop terminates by the measure
  \<open>100 - repeat_count\<close>).  From any state and for any sequence of values read on the
  port it makes at least one and at most 100 calls of \<open>inb\<close> and no call of \<open>outb\<close>;
  every poll before the last one found the flag different from the expected value; if
  one of the first 100 reads shows the expected value it returns success at that read;
  otherwise it returns \<open>timed_out\<close> after exactly 100 polls.
\<close>

theorem ec_io_wait_bounded:
  "case ec_io_wait hw port flag v p of (err, p') \<Rightarrow>
     outb_log p' = outb_log p \<and>
     inb_calls p < inb_calls p' \<and> inb_calls p' \<le> inb_calls p + 100 \<and>
     (\<forall>i. inb_calls p \<le> i \<and> Suc i < inb_calls p' \<longrightarrow> \<not> flag_is (hw i port) flag v) \<and>
     (if \<exists>k<100. flag_is (hw (inb_calls p + k) port) flag v
      then err = EXIT_SUCCESS \<and> flag_is (hw (inb_calls p' - 1) port) flag v
      else err = timed_out \<and> inb_calls p' = inb_calls p + 100)"
proof -
  define n where "n = inb_calls p"
  obtain err n' where r: "ec_io_wait_loop hw port flag v 0 n = (err, n')"
    by (cases "ec_io_wait_loop hw port flag v 0 n")
  have s: "n < n' \<and> n' \<le> n + 100 \<and>
     (\<forall>i. n \<le> i \<and> Suc i < n' \<longrightarrow> \<not> flag_is (hw i port) flag v) \<and>
     ((err = EXIT_SUCCESS \<and> flag_is (hw (n' - 1) port) flag v) \<or>
      (err = timed_out \<and> n' = n + 100 \<and> \<not> flag_is (hw (n' - 1) port) flag v))"
    using ec_io_wait_loop_spec[where rc=0 and hw=hw and port=port and flag=flag and v=v
        and n=n]
    unfolding r by simp
  have w: "ec_io_wait hw port flag v p = (err, p\<lparr>inb_calls := n'\<rparr>)"
    by (simp add: ec_io_wait_def r n_def[symmetric])
  have c: "if \<exists>k<100. flag_is (hw (n + k) port) flag v
      then err = EXIT_SUCCESS \<and> flag_is (hw (n' - 1) port) flag v
      else err = timed_out \<and> n' = n + 100"
  proof (cases "\<exists>k<100. flag_is (hw (n + k) port) flag v")
    case True
    then obtain k where k: "k < 100" "flag_is (hw (n + k) port) flag v" by blast
    have "\<not> (err = timed_out \<and> n' = n + 100 \<and> \<not> flag_is (hw (n' - 1) port) flag v)"
    proof
      assume a: "err = timed_out \<and> n' = n + 100 \<and> \<not> flag_is (hw (n' - 1) port) flag v"
      show False
      proof (cases "k = 99")
        case True
        from a have e: "n' - 1 = n + 99" by simp
        from k True have "flag_is (hw (n + 99) port) flag v" by simp
        moreover from a have "\<not> flag_is (hw (n' - 1) port) flag v" by blast
        ultimately show False unfolding e by blast
      next
        case False
        then have "n \<le> n + k \<and> Suc (n + k) < n'" using a k by simp
        moreover from s have
          "\<forall>i. n \<le> i \<and> Suc i < n' \<longrightarrow> \<not> flag_is (hw i port) flag v" by blast
        ultimately show False using k(2) by blast
      qed
    qed
    with s have "err = EXIT_SUCCESS \<and> flag_is (hw (n' - 1) port) flag v" by blast
    then show ?thesis unfolding if_P[OF True] .
  next
    case False
    have "\<not> (err = EXIT_SUCCESS \<and> flag_is (hw (n' - 1) port) flag v)"
    proof
      assume a: "err = EXIT_SUCCESS \<and> flag_is (hw (n' - 1) port) flag v"
      from s have b: "n < n'" "n' \<le> n + 100" by blast+
      then have lt: "n' - 1 - n < 100" by simp
      from b have "n + (n' - 1 - n) = n' - 1" by simp
      with a have "flag_is (hw (n + (n' - 1 - n)) port) flag v" by simp
      with lt have "\<exists>k<100. flag_is (hw (n + k) port) flag v" by blast
      with False show False by blast
    qed
    with s have "err = timed_out \<and> n' = n + 100" by blast
    then show ?thesis unfolding if_not_P[OF False] .
  qed
  from s have s1: "n < n'" and s2: "n' \<le> n + 100"
    and s3: "\<forall>i. n \<le> i \<and> Suc i < n' \<longrightarrow> \<not> flag_is (hw i port) flag v" by blast+
  have f1: "outb_log (p\<lparr>inb_calls := n'\<rparr>) = outb_log p" by simp
  have f2: "inb_calls (p\<lparr>inb_calls := n'\<rparr>) = n'" by simp
  show ?thesis unfolding w prod.case f1 f2 n_def[symmetric]
    using s1 s2 s3 c by blast
qed

theorem ec_io_wait_bounded_witness:
  "fst (ec_io_wait (\<lambda>n port. if n = 2 then 0 else 2) ec_sc ibf 0
          \<lparr>inb_calls = 0, outb_log = []\<rparr>) = EXIT_SUCCESS \<and>
   fst (ec_io_wait (\<lambda>n port. 2) ec_sc ibf 0 \<lparr>inb_calls = 0, outb_log = []\<rparr>) = timed_out \<and>
   inb_calls (snd (ec_io_wait (\<lambda>n port. 2) ec_sc ibf 0 \<lparr>inb_calls = 0, outb_log = []\<rparr>)) = 100"
proof -
  let ?hw = "\<lambda>(n::nat) (port::u16). if n = 2 then (0::u8) else 2"
  let ?hw' = "\<lambda>(n::nat) (port::u16). (2::u8)"
  let ?p = "\<lparr>inb_calls = 0, outb_log = []\<rparr>"
  have "flag_is (?hw (inb_calls ?p + 2) ec_sc) ibf 0"
    by (simp add: flag_is_def ibf_def)
  then have ex: "\<exists>k<100. flag_is (?hw (inb_calls ?p + k) ec_sc) ibf 0"
    by (intro exI[of _ 2] conjI) simp_all
  obtain err q where r: "ec_io_wait ?hw ec_sc ibf 0 ?p = (err, q)"
    by (cases "ec_io_wait ?hw ec_sc ibf 0 ?p")
  have "err = EXIT_SUCCESS"
    using ec_io_wait_bounded[where hw="?hw" and port=ec_sc and flag=ibf and v=0 and p="?p"]
    unfolding r prod.case if_P[OF ex] by blast
  then have 1: "fst (ec_io_wait ?hw ec_sc ibf 0 ?p) = EXIT_SUCCESS"
    unfolding r by simp
  have "\<And>k. \<not> flag_is (?hw' (inb_calls ?p + k) ec_sc) ibf 0"
    by (simp add: flag_is_def ibf_def)
  then have nex: "\<not> (\<exists>k<100. flag_is (?hw' (inb_calls ?p + k) ec_sc) ibf 0)"
    by blast
  obtain err' q' where r': "ec_io_wait ?hw' ec_sc ibf 0 ?p = (err', q')"
    by (cases "ec_io_wait ?hw' ec_sc ibf 0 ?p")
  have "err' = timed_out \<and> inb_calls q' = inb_calls ?p + 100"
    using ec_io_wait_bounded[where hw="?hw'" and port=ec_sc and flag=ibf and v=0 and p="?p"]
    unfolding r' prod.case if_not_P[OF nex] by blast
  then have 2: "fst (ec_io_wait ?hw' ec_sc ibf 0 ?p) = timed_out \<and>
      inb_calls (snd (ec_io_wait ?hw' ec_sc ibf 0 ?p)) = 100"
    unfolding r' by simp
  from 1 2 show ?thesis by blast
qed

section \<open>Properties of the control loop\<close>

text \<open>
  The state at the end of an iteration holds the temperatures and the duty that
  \<open>ec_auto_duty_adjust\<close> was called with in that iteration: those of the snapshot when
  256 bytes were read, and the previous ones otherwise.
\<close>

lemma tick_readings:
  assumes "ec_worker_tick hw env w = Inr w'"
  shows "cpu_temp w' =
           (if read_len (read_ret env) = 0x100
            then uint (read_buf (read_ret env) ! ec_reg_cpu_temp) else cpu_temp w)"
    and "gpu_temp w' =
           (if read_len (read_ret env) = 0x100
            then uint (read_buf (read_ret env) ! ec_reg_gpu_temp) else gpu_temp w)"
    and "fan_duty w' =
           (if read_len (read_ret env) = 0x100
            then calculate_fan_duty (uint (read_buf (read_ret env) ! ec_reg_fan_duty))
            else fan_duty w)"
  using assms unfolding ec_worker_tick_def Let_def
  by (auto split: if_splits)

text \<open>
  C5: when an iteration reaches its end and \<open>ec_auto_duty_adjust\<close>, called on the
  temperatures and the duty of that iteration, has returned \<open>- 1\<close>, the port channel is
  as it was before the iteration (no \<open>inb\<close>, no \<open>outb\<close>: no write of the fan duty), and
  so is \<open>auto_duty_val\<close>.
\<close>

theorem tick_no_change_on_minus_one:
  assumes "ec_worker_tick hw env w = Inr w'"
    and "ec_auto_duty_adjust (cpu_temp w') (gpu_temp w') (fan_duty w') = - 1"
  shows "ports w' = ports w \<and> auto_duty_val w' = auto_duty_val w"
  using assms unfolding ec_worker_tick_def Let_def
  by (auto split: if_splits)

theorem tick_no_change_on_minus_one_witness:
  "ec_worker_tick (\<lambda>n port. 0)
     \<lparr>open_ret = 3, read_ret = ReadBytes (replicate 7 0 @ [52] @ replicate 248 0), errno = 0\<rparr>
     \<lparr>cpu_temp = 90, gpu_temp = 80, fan_duty = 65, auto_duty_val = 65, open_fds = [],
      ports = \<lparr>inb_calls = 0, outb_log = []\<rparr>\<rparr> =
   Inr \<lparr>cpu_temp = 52, gpu_temp = 0, fan_duty = 0, auto_duty_val = 65, open_fds = [],
      ports = \<lparr>inb_calls = 0, outb_log = []\<rparr>\<rparr> \<and>
   ec_auto_duty_adjust 52 0 0 = - 1"
proof -
  let ?hw = "\<lambda>(n::nat) (port::u16). (0::u8)"
  let ?env = "\<lparr>open_ret = 3, read_ret = ReadBytes (replicate 7 0 @ [52] @ replicate 248 0),
      errno = 0\<rparr>"
  let ?w = "\<lparr>cpu_temp = 90, gpu_temp = 80, fan_duty = 65, auto_duty_val = 65, open_fds = [],
      ports = \<lparr>inb_calls = 0, outb_log = []\<rparr>\<rparr>"
  have nd: "ec_auto_duty_adjust 52 0 0 = - 1"
    by (simp add: ec_auto_duty_adjust_def identify_duty_cases new_duty_init_def)
  have len: "read_len (read_ret ?env) = 0x100"
    by (simp add: ec_reg_size_def)
  have buf: "read_buf (read_ret ?env) ! ec_reg_cpu_temp = 52"
    "read_buf (read_ret ?env) ! ec_reg_gpu_temp = 0"
    "read_buf (read_ret ?env) ! ec_reg_fan_duty = 0"
    by (simp_all add: ec_reg_size_def ec_reg_cpu_temp_def ec_reg_gpu_temp_def
        ec_reg_fan_duty_def nth_append)
  obtain w' where t: "ec_worker_tick ?hw ?env ?w = Inr w'"
    and f: "cpu_temp w' = 52" "gpu_temp w' = 0" "fan_duty w' = 0" "open_fds w' = []"
    unfolding ec_worker_tick_def Let_def len buf
    by (simp add: calculate_fan_duty_zero nd)
  have nd': "ec_auto_duty_adjust (cpu_temp w') (gpu_temp w') (fan_duty w') = - 1"
    unfolding f by (rule nd)
  have "ports w' = ports ?w \<and> auto_duty_val w' = auto_duty_val ?w"
    using tick_no_change_on_minus_one[OF t nd'] .
  then have "w' = \<lparr>cpu_temp = 52, gpu_temp = 0, fan_duty = 0, auto_duty_val = 65,
      open_fds = [], ports = \<lparr>inb_calls = 0, outb_log = []\<rparr>\<rparr>"
    using f by (cases w') simp
  with t nd show ?thesis by simp
qed

text \<open>
  An iteration that reaches its end has closed the descriptor it opened: the open
  descriptors are those of the start of the iteration.
\<close>

lemma tick_closes_on_continue:
  "ec_worker_tick hw env w = Inr w' \<Longrightarrow> open_fds w' = open_fds w"
  unfolding ec_worker_tick_def Let_def
  by (auto split: if_splits)

text \<open>
  C8 fails on the read-error path: when \<open>open\<close> returns descriptor 3 and \<open>read\<close> returns
  \<open>- 1\<close>, the iteration returns out of \<open>ec_worker\<close> with the error code and descriptor 3
  is still open; \<open>close\<close> is reached on the two other paths only.
\<close>

theorem tick_read_error_leaves_fd_open:
  "ec_worker_tick hw \<lparr>open_ret = 3, read_ret = ReadFailed, errno = 5\<rparr> w =
     Inl (5, w\<lparr>open_fds := 3 # open_fds w\<rparr>) \<and>
   ec_worker hw [\<lparr>open_ret = 3, read_ret = ReadFailed, errno = 5\<rparr>] p =
     (5, \<lparr>cpu_temp = 0, gpu_temp = 0, fan_duty = 0, auto_duty_val = - 1,
          open_fds = [3], ports = p\<rparr>)"
  by (simp add: ec_worker_def ec_worker_tick_def)

section \<open>Properties of the command line\<close>

text \<open>
  C7 fails for an integer outside the accepted range: with the argument \<open>101\<close> the
  parse succeeds, the range test prints the rejection and returns the error code of the
  parse, which is the success code, and \<open>main\<close> exits with \<open>EXIT_SUCCESS\<close>.
\<close>

theorem main_accepts_out_of_range:
  "main hw 0 0 envs [''clevo-fancontrol'', ''101''] = EXIT_SUCCESS \<and>
   from_chars ''101'' = Inr 101"
  by (simp add: main_def ec_main_def ec_init_def EXIT_SUCCESS_def from_chars_def
      is_digit_def digit_val_def in_int32_def)

text \<open>
  An argument that starts with digits is taken as the number that the digits denote,
  whatever follows them.
\<close>

lemma ec_main_ignores_trailing_characters:
  "ec_main hw 0 0 envs [''clevo-fancontrol'', ''12abc''] p = set_fan hw 12 p"
  by (simp add: ec_main_def ec_init_def EXIT_SUCCESS_def from_chars_def
      is_digit_def digit_val_def in_int32_def)

text \<open>An argument that \<open>from_chars\<close> cannot parse does end the program with a failure.\<close>

lemma from_chars_error_nonzero: "from_chars s = Inl err \<Longrightarrow> err \<noteq> 0"
  by (auto simp: from_chars_def Let_def invalid_argument_def result_out_of_range_def
      split: if_splits)

lemma main_rejects_unparsable:
  assumes "length argv > 1"
    and "\<not> list_ex (\<lambda>s. s = ''--help'' \<or> s = ''-h'') (drop 1 argv)"
    and "from_chars (argv ! 1) = Inl err"
  shows "main hw 0 0 envs argv = EXIT_FAILURE"
  using assms from_chars_error_nonzero[OF assms(3)]
  by (simp add: main_def ec_main_def ec_init_def EXIT_SUCCESS_def)

end
